theory Spec2Isabelle
  imports Complex_Main
begin

section \<open>Learning-rate schedules (creme/optim/lr\_schedule.py)\<close>

text \<open>
  The module defines an abstract class \<open>LRScheduler\<close> with one method \<open>get(self, t)\<close>
  and three subclasses: \<open>ConstantLR\<close>, \<open>InverseScalingLR\<close> and \<open>OptimalLR\<close>.
  (The specification calls them \<open>ConstantSchedule\<close>, \<open>InverseScalingSchedule\<close>,
  \<open>OptimalSchedule\<close> and calls \<open>get\<close> \<open>rateAt\<close>.)

  The step \<open>t\<close> is a Python \<open>int\<close>, modelled by \<open>int\<close>. The attributes are Python
  floats, as the specification's data model declares them (\<open>float64\<close>), each modelled
  by the real number it denotes. Two attributes also occur as a Python \<open>int\<close>, and are
  modelled as such too: \<open>t0\<close>, in the source's default \<open>t0=1000\<close>, and the power, in the
  specification's \<open>InverseScalingSchedule(r, 0)\<close>. The method bodies are given two
  readings.
  \<^item> \<open>get\<close>: exact arithmetic on the reals, with the \<open>ZeroDivisionError\<close> of a true
    division by zero and of \<open>0 ** negative\<close>, and the complex result of \<open>**\<close> for a
    negative base with a fractional exponent, but without rounding. It is what a
    statement "in exact arithmetic" refers to, and it is how the effect of a call on
    the object is read.
  \<^item> \<open>get64_with\<close>: the bodies as CPython computes them, in IEEE 754 binary64: every
    operation rounds to nearest, ties to even, and overflows to infinity; \<open>int\<close> to
    \<open>float\<close> conversion and \<open>**\<close> raise \<open>OverflowError\<close>. What the C library returns
    for \<open>**\<close> is a parameter, of which nothing is assumed. \<open>get64\<close> is \<open>get64_with\<close>
    at a correctly rounded library; it serves to run the bodies at particular inputs.
\<close>

section \<open>Exact arithmetic\<close>

subsection \<open>Python values and the two operators the methods use\<close>

datatype py_error = ZeroDivisionError | OverflowError

datatype py_value = PyFloat real | PyComplex complex

type_synonym py_result = "py_error + py_value"

text \<open>
  Complex power \<open>a ** b\<close> for a real base \<open>a \<noteq> 0\<close> and a real exponent \<open>b \<noteq> 0\<close>, as CPython
  computes it in polar form: \<open>vabs = hypot(a, 0)\<close>, \<open>len = pow(vabs, b)\<close>,
  \<open>at = atan2(0, a)\<close>, \<open>phase = at * b\<close>, result \<open>len * cos(phase) + len * sin(phase) j\<close>.
\<close>

definition c_pow :: "real \<Rightarrow> real \<Rightarrow> complex" where
  "c_pow a b =
     (let vabs = \<bar>a\<bar>;
          len = vabs powr b;
          at' = (if a < 0 then pi else 0);
          phase = at' * b
      in Complex (len * cos phase) (len * sin phase))"

text \<open>
  \<open>iv ** iw\<close> on real operands, in the order of CPython's case analysis: \<open>v ** 0\<close> is 1
  (also \<open>0 ** 0\<close>); \<open>0 ** negative\<close> raises \<open>ZeroDivisionError\<close>; \<open>0 ** positive\<close> is 0;
  a negative base with a fractional exponent gives a complex number; a negative base with
  an integral exponent gives \<open>\<plusminus> |iv| ** iw\<close>, negative when the exponent is odd.
\<close>

definition float_pow :: "real \<Rightarrow> real \<Rightarrow> py_result" where
  "float_pow iv iw =
     (if iw = 0 then Inr (PyFloat 1)
      else if iv = 0 then
        (if iw < 0 then Inl ZeroDivisionError else Inr (PyFloat 0))
      else if iv < 0 then
        (if iw \<noteq> of_int \<lfloor>iw\<rfloor> then Inr (PyComplex (c_pow iv iw))
         else if odd \<lfloor>iw\<rfloor> then Inr (PyFloat (- ((- iv) powr iw)))
         else Inr (PyFloat ((- iv) powr iw)))
      else Inr (PyFloat (iv powr iw)))"

text \<open>
  True division \<open>a / v\<close> of a real number by a value: by a float, or (after coercion of
  \<open>a\<close>) by a complex number; a zero divisor raises \<open>ZeroDivisionError\<close>.
\<close>

definition truediv :: "real \<Rightarrow> py_value \<Rightarrow> py_result" where
  "truediv a v =
     (case v of
        PyFloat b \<Rightarrow> if b = 0 then Inl ZeroDivisionError else Inr (PyFloat (a / b))
      | PyComplex z \<Rightarrow>
          if z = 0 then Inl ZeroDivisionError else Inr (PyComplex (complex_of_real a / z)))"

subsection \<open>The schedulers\<close>

text \<open>
  One constructor per subclass, holding the attributes its \<open>__init__\<close> stores:
  \<open>ConstantLR learning_rate\<close>, \<open>InverseScalingLR learning_rate power\<close> and
  \<open>OptimalLR t0 alpha\<close>, with float attributes. \<open>InverseScalingLR_int_power\<close> is an
  \<open>InverseScalingLR\<close> object whose power is an \<open>int\<close>, and \<open>OptimalLR_int_t0\<close> an
  \<open>OptimalLR\<close> object whose \<open>t0\<close> is an \<open>int\<close>.
\<close>

datatype LRScheduler =
    ConstantLR real
  | InverseScalingLR real real
  | OptimalLR real real
  | InverseScalingLR_int_power real int
  | OptimalLR_int_t0 int real


text \<open>
  The default arguments \<open>t0=1000\<close>, an \<open>int\<close>, and \<open>alpha=1e-4\<close> of \<open>OptimalLR\<close>; the
  float \<open>1e-4\<close> is \<open>7378697629483821 / 2 ** 66\<close>.
\<close>

definition OptimalLR_default :: LRScheduler where
  "OptimalLR_default = OptimalLR_int_t0 1000 (7378697629483821 / 2 ^ 66)"

text \<open>
  The method \<open>get\<close>, dispatched on the class of \<open>self\<close>:
  \<^item> \<open>ConstantLR\<close>: \<open>return self.learning_rate\<close>
  \<^item> \<open>InverseScalingLR\<close>: \<open>return self.learning_rate / (t + 1) ** self.power\<close>
  \<^item> \<open>OptimalLR\<close>: \<open>return 1. / (self.alpha * (t + self.t0))\<close>

  With an \<open>int\<close> power \<open>p\<close>, \<open>(t + 1) ** p\<close> is the \<open>int\<close> power for \<open>p \<ge> 0\<close> and the float
  power of the two operands for \<open>p < 0\<close>.
\<close>

fun get :: "LRScheduler \<Rightarrow> int \<Rightarrow> py_result" where
  "get (ConstantLR learning_rate) t = Inr (PyFloat learning_rate)"
| "get (InverseScalingLR learning_rate pw) t =
     (case float_pow (of_int (t + 1)) pw of
        Inl e \<Rightarrow> Inl e
      | Inr d \<Rightarrow> truediv learning_rate d)"
| "get (OptimalLR t0 alpha) t = truediv 1 (PyFloat (alpha * (of_int t + t0)))"
| "get (InverseScalingLR_int_power learning_rate p) t =
     (if 0 \<le> p then truediv learning_rate (PyFloat (of_int ((t + 1) ^ nat p)))
      else
        (case float_pow (of_int (t + 1)) (of_int p) of
           Inl e \<Rightarrow> Inl e
         | Inr d \<Rightarrow> truediv learning_rate d))"
| "get (OptimalLR_int_t0 t0 alpha) t = truediv 1 (PyFloat (alpha * of_int (t + t0)))"

text \<open>
  A call \<open>self.get(t)\<close> as a step on the object: the result of the call together with
  the object after it. No method body assigns to an attribute of \<open>self\<close>.
\<close>

definition call_get :: "LRScheduler \<Rightarrow> int \<Rightarrow> py_result \<times> LRScheduler" where
  "call_get self t = (get self t, self)"

text \<open>
  The optimizer calls \<open>get\<close> once per update, on the same object, with the steps of its
  own counter. \<open>run self ts\<close> makes the calls for the steps \<open>ts\<close> in order, threading
  the object from each call to the next, and returns the results and the final object.
\<close>

fun run :: "LRScheduler \<Rightarrow> int list \<Rightarrow> py_result list \<times> LRScheduler" where
  "run self [] = ([], self)"
| "run self (t # ts) =
     (let (r, self') = call_get self t;
          (rs, self'') = run self' ts
      in (r # rs, self''))"

section \<open>Binary64 arithmetic\<close>

text \<open>
  A binary64 value: a finite number (one of the representable reals), an infinity or
  NaN. The sign of a zero is not tracked: Python's \<open>==\<close> and \<open><\<close> do not see it, and a
  division by either zero raises.
\<close>

datatype f64 = Finite real | PInf | NInf | NaN

text \<open>Rounding of a real to the nearest integer, a tie going to the even one.\<close>

definition round_half_even :: "real \<Rightarrow> int" where
  "round_half_even x =
     (let n = \<lfloor>x\<rfloor>; d = x - of_int n
      in if d < 1 / 2 then n else if 1 / 2 < d then n + 1 else if even n then n else n + 1)"

text \<open>
  The exponent of the last place of a binary64 number near \<open>x\<close>: 52 below the exponent
  of \<open>x\<close> for a normal number (53 significant bits), and \<open>-1074\<close> in the subnormal range.
\<close>

definition b64_exponent :: "real \<Rightarrow> int" where
  "b64_exponent x = max (\<lfloor>log 2 \<bar>x\<bar>\<rfloor> - 52) (- 1074)"

text \<open>Rounding to the nearest multiple of \<open>2 ^ e\<close>, ties to even.\<close>

definition round_to_grid :: "int \<Rightarrow> real \<Rightarrow> real" where
  "round_to_grid e x = of_int (round_half_even (x / 2 powr of_int e)) * 2 powr of_int e"

text \<open>
  Rounding of a real to binary64: to the nearest representable number, ties to even,
  and to an infinity when the rounded magnitude reaches \<open>2 ^ 1024\<close>.
\<close>

definition b64_round :: "real \<Rightarrow> f64" where
  "b64_round x =
     (if x = 0 then Finite 0
      else let y = round_to_grid (b64_exponent x) x
           in if 2 ^ 1024 \<le> \<bar>y\<bar> then (if 0 < x then PInf else NInf) else Finite y)"

text \<open>Python's \<open><=\<close> on floats; a comparison with NaN is false.\<close>

fun f_le :: "f64 \<Rightarrow> f64 \<Rightarrow> bool" where
  "f_le NaN _ = False"
| "f_le _ NaN = False"
| "f_le (Finite a) (Finite b) = (a \<le> b)"
| "f_le NInf _ = True"
| "f_le _ PInf = True"
| "f_le _ _ = False"

text \<open>
  \<open>float(n)\<close> for an \<open>int\<close>, as the mixed operators (\<open>int + float\<close>, \<open>float * int\<close>,
  \<open>float / int\<close>, \<open>int ** float\<close>) apply it to their \<open>int\<close> operand: correctly rounded,
  and \<open>OverflowError\<close> when the result is not finite.
\<close>

definition float_of_int :: "int \<Rightarrow> py_error + real" where
  "float_of_int n =
     (case b64_round (of_int n) of Finite y \<Rightarrow> Inr y | _ \<Rightarrow> Inl OverflowError)"

text \<open>Addition and multiplication of floats: they round, and overflow silently.\<close>

fun f_add :: "f64 \<Rightarrow> f64 \<Rightarrow> f64" where
  "f_add NaN _ = NaN"
| "f_add _ NaN = NaN"
| "f_add (Finite a) (Finite b) = b64_round (a + b)"
| "f_add PInf NInf = NaN"
| "f_add NInf PInf = NaN"
| "f_add PInf _ = PInf"
| "f_add _ PInf = PInf"
| "f_add NInf _ = NInf"
| "f_add _ NInf = NInf"

fun f_mul :: "f64 \<Rightarrow> f64 \<Rightarrow> f64" where
  "f_mul NaN _ = NaN"
| "f_mul _ NaN = NaN"
| "f_mul (Finite a) (Finite b) = b64_round (a * b)"
| "f_mul (Finite a) PInf = (if a = 0 then NaN else if 0 < a then PInf else NInf)"
| "f_mul (Finite a) NInf = (if a = 0 then NaN else if 0 < a then NInf else PInf)"
| "f_mul PInf (Finite b) = (if b = 0 then NaN else if 0 < b then PInf else NInf)"
| "f_mul NInf (Finite b) = (if b = 0 then NaN else if 0 < b then NInf else PInf)"
| "f_mul PInf PInf = PInf"
| "f_mul NInf NInf = PInf"
| "f_mul PInf NInf = NInf"
| "f_mul NInf PInf = NInf"

text \<open>
  True division of floats: a zero divisor raises \<open>ZeroDivisionError\<close>; otherwise the
  quotient is rounded, and overflows silently.
\<close>

fun f_truediv :: "f64 \<Rightarrow> f64 \<Rightarrow> py_error + f64" where
  "f_truediv a (Finite b) =
     (if b = 0 then Inl ZeroDivisionError
      else Inr (case a of
                  Finite x \<Rightarrow> b64_round (x / b)
                | PInf \<Rightarrow> if 0 < b then PInf else NInf
                | NInf \<Rightarrow> if 0 < b then NInf else PInf
                | NaN \<Rightarrow> NaN))"
| "f_truediv a NaN = Inr NaN"
| "f_truediv (Finite x) _ = Inr (Finite 0)"
| "f_truediv _ _ = Inr NaN"

text \<open>Negation of a float.\<close>

fun f_neg :: "f64 \<Rightarrow> f64" where
  "f_neg (Finite x) = Finite (- x)"
| "f_neg PInf = NInf"
| "f_neg NInf = PInf"
| "f_neg NaN = NaN"

fun is_infinite :: "f64 \<Rightarrow> bool" where
  "is_infinite PInf = True"
| "is_infinite NInf = True"
| "is_infinite _ = False"

text \<open>
  The result of a call in binary64: a float, or a complex number with two float parts.
\<close>

datatype py_value64 = PyFloat64 f64 | PyComplex64 f64 f64

text \<open>
  What CPython's \<open>**\<close> and complex division take from outside the method bodies, as
  functions of their finite operands:
  \<^item> \<open>pow_fn x y\<close>: the C library's \<open>pow(x, y)\<close> for a base \<open>x > 0\<close>;
  \<^item> \<open>cpow_parts a b\<close>: the real and imaginary part of the complex power of a
    negative base \<open>a\<close> to a fractional exponent \<open>b\<close> (computed in polar form with the C
    library's \<open>pow\<close>, \<open>atan2\<close>, \<open>cos\<close> and \<open>sin\<close>);
  \<^item> \<open>cquot_parts a re im\<close>: the two parts of the quotient of the float \<open>a\<close> by the
    non-zero complex number with parts \<open>re\<close> and \<open>im\<close>.
  Nothing is assumed of them but what a theorem states.
\<close>

record clib =
  pow_fn :: "real \<Rightarrow> real \<Rightarrow> f64"
  cpow_parts :: "real \<Rightarrow> real \<Rightarrow> f64 \<times> f64"
  cquot_parts :: "real \<Rightarrow> f64 \<Rightarrow> f64 \<Rightarrow> f64 \<times> f64"

text \<open>
  \<open>iv ** iw\<close> on finite floats, in the order of CPython's case analysis: \<open>v ** 0\<close> is
  \<open>1.0\<close>; \<open>0 ** negative\<close> raises \<open>ZeroDivisionError\<close> and \<open>0 ** positive\<close> is \<open>0.0\<close>; a
  negative base with a fractional exponent goes to the complex power, which raises
  \<open>OverflowError\<close> when a part is infinite; a negative base with an integral exponent
  is replaced by its absolute value, and the result negated when the exponent is odd;
  a base of absolute value 1 gives \<open>1.0\<close> without a call of \<open>pow\<close>; otherwise \<open>pow\<close> is
  called, and an infinite result raises \<open>OverflowError\<close>.
\<close>

definition float_pow_with :: "clib \<Rightarrow> real \<Rightarrow> real \<Rightarrow> py_error + py_value64" where
  "float_pow_with L iv iw =
     (if iw = 0 then Inr (PyFloat64 (Finite 1))
      else if iv = 0 then
        (if iw < 0 then Inl ZeroDivisionError else Inr (PyFloat64 (Finite 0)))
      else if iv < 0 \<and> iw \<noteq> of_int \<lfloor>iw\<rfloor> then
        (case cpow_parts L iv iw of
           (re, im) \<Rightarrow>
             if is_infinite re \<or> is_infinite im then Inl OverflowError
             else Inr (PyComplex64 re im))
      else
        (let negate_result = (iv < 0 \<and> odd \<lfloor>iw\<rfloor>);
             ix = (if \<bar>iv\<bar> = 1 then Finite 1 else pow_fn L \<bar>iv\<bar> iw)
         in if is_infinite ix then Inl OverflowError
            else Inr (PyFloat64 (if negate_result then f_neg ix else ix))))"

text \<open>
  True division \<open>a / v\<close> of a float by a power: by a float, or by a complex number,
  where it raises \<open>ZeroDivisionError\<close> when both parts are zero.
\<close>

definition truediv_with :: "clib \<Rightarrow> real \<Rightarrow> py_value64 \<Rightarrow> py_error + py_value64" where
  "truediv_with L a v =
     (case v of
        PyFloat64 b \<Rightarrow> map_sum id PyFloat64 (f_truediv (Finite a) b)
      | PyComplex64 re im \<Rightarrow>
          if re = Finite 0 \<and> im = Finite 0 then Inl ZeroDivisionError
          else (case cquot_parts L a re im of (qr, qi) \<Rightarrow> Inr (PyComplex64 qr qi)))"

text \<open>
  \<open>n ** iw\<close> for an \<open>int\<close> \<open>n\<close> and a float \<open>iw\<close>: the \<open>int\<close> is converted to \<open>float\<close>
  first.
\<close>

definition int_float_pow_with :: "clib \<Rightarrow> int \<Rightarrow> real \<Rightarrow> py_error + py_value64" where
  "int_float_pow_with L n iw =
     (case float_of_int n of
        Inl e \<Rightarrow> Inl e
      | Inr iv \<Rightarrow> float_pow_with L iv iw)"

text \<open>
  The three method bodies in binary64. In \<open>t + self.t0\<close> with a float \<open>t0\<close> the \<open>int\<close>
  operand is converted to \<open>float\<close> first; with an \<open>int\<close> \<open>t0\<close> the sum is the exact \<open>int\<close>,
  which the multiplication by the float \<open>alpha\<close> converts. With an \<open>int\<close> power \<open>p \<ge> 0\<close>,
  \<open>(t + 1) ** p\<close> is the exact \<open>int\<close>, which the division of the float learning rate
  converts; with an \<open>int\<close> power \<open>p < 0\<close>, \<open>**\<close> converts both operands to \<open>float\<close> and
  computes the float power.
\<close>

fun get64_with :: "clib \<Rightarrow> LRScheduler \<Rightarrow> int \<Rightarrow> py_error + py_value64" where
  "get64_with L (ConstantLR learning_rate) t = Inr (PyFloat64 (Finite learning_rate))"
| "get64_with L (InverseScalingLR learning_rate pw) t =
     (case int_float_pow_with L (t + 1) pw of
        Inl e \<Rightarrow> Inl e
      | Inr d \<Rightarrow> truediv_with L learning_rate d)"
| "get64_with L (OptimalLR t0 alpha) t =
     (case float_of_int t of
        Inl e \<Rightarrow> Inl e
      | Inr ft \<Rightarrow>
          map_sum id PyFloat64
            (f_truediv (Finite 1) (f_mul (Finite alpha) (f_add (Finite ft) (Finite t0)))))"
| "get64_with L (InverseScalingLR_int_power learning_rate p) t =
     (if 0 \<le> p then
        (case float_of_int ((t + 1) ^ nat p) of
           Inl e \<Rightarrow> Inl e
         | Inr d \<Rightarrow> map_sum id PyFloat64 (f_truediv (Finite learning_rate) (Finite d)))
      else
        (case float_of_int (t + 1) of
           Inl e \<Rightarrow> Inl e
         | Inr iv \<Rightarrow>
             (case float_of_int p of
                Inl e \<Rightarrow> Inl e
              | Inr iw \<Rightarrow>
                  (case float_pow_with L iv iw of
                     Inl e \<Rightarrow> Inl e
                   | Inr d \<Rightarrow> truediv_with L learning_rate d))))"
| "get64_with L (OptimalLR_int_t0 t0 alpha) t =
     (case float_of_int (t + t0) of
        Inl e \<Rightarrow> Inl e
      | Inr s \<Rightarrow>
          map_sum id PyFloat64 (f_truediv (Finite 1) (f_mul (Finite alpha) (Finite s))))"

text \<open>
  A correctly rounded library: each of the three functions returns the exact result,
  rounded once. It serves to run the bodies at particular inputs, where the outcome
  does not depend on how the library rounds: the power is a float, or it overflows or
  underflows; of a complex power only the kind of the result is read, not its parts.
\<close>

definition correctly_rounded :: clib where
  "correctly_rounded =
     \<lparr>pow_fn = (\<lambda>x y. b64_round (x powr y)),
      cpow_parts = (\<lambda>a b. (b64_round (Re (c_pow a b)), b64_round (Im (c_pow a b)))),
      cquot_parts = (\<lambda>a re im.
         case (re, im) of
           (Finite r, Finite i) \<Rightarrow>
             (b64_round (Re (complex_of_real a / Complex r i)),
              b64_round (Im (complex_of_real a / Complex r i)))
         | _ \<Rightarrow> (NaN, NaN))\<rparr>"

definition get64 :: "LRScheduler \<Rightarrow> int \<Rightarrow> py_error + py_value64" where
  "get64 = get64_with correctly_rounded"


section \<open>Auxiliary facts\<close>

subsection \<open>Exact arithmetic\<close>



lemma get_OptimalLR_cases:
  "get (OptimalLR t0 alpha) t =
     (if alpha * (of_int t + t0) = 0 then Inl ZeroDivisionError
      else Inr (PyFloat (1 / (alpha * (of_int t + t0)))))"
  by (simp add: truediv_def)


lemma run_frame: "run self ts = (map (get self) ts, self)"
  by (induction ts) (simp_all add: call_get_def)

subsection \<open>The bodies at the correctly rounded library\<close>

lemma get64_ConstantLR [simp]:
  "get64 (ConstantLR learning_rate) t = Inr (PyFloat64 (Finite learning_rate))"
  by (simp add: get64_def)

lemma get64_OptimalLR [simp]:
  "get64 (OptimalLR t0 alpha) t =
     (case float_of_int t of
        Inl e \<Rightarrow> Inl e
      | Inr ft \<Rightarrow>
          map_sum id PyFloat64
            (f_truediv (Finite 1) (f_mul (Finite alpha) (f_add (Finite ft) (Finite t0)))))"
  by (simp add: get64_def)

lemma get64_InverseScalingLR:
  "get64 (InverseScalingLR learning_rate pw) t =
     (case float_of_int (t + 1) of
        Inl e \<Rightarrow> Inl e
      | Inr x \<Rightarrow>
          (case float_pow_with correctly_rounded x pw of
             Inl e \<Rightarrow> Inl e
           | Inr d \<Rightarrow> truediv_with correctly_rounded learning_rate d))"
  by (simp add: get64_def int_float_pow_with_def split: sum.splits)

lemma get64_OptimalLR_int_t0 [simp]:
  "get64 (OptimalLR_int_t0 t0 alpha) t =
     (case float_of_int (t + t0) of
        Inl e \<Rightarrow> Inl e
      | Inr s \<Rightarrow>
          map_sum id PyFloat64 (f_truediv (Finite 1) (f_mul (Finite alpha) (Finite s))))"
  by (simp add: get64_def)

subsection \<open>Rounding is monotone\<close>

lemma round_half_even_bounds: "\<lfloor>x\<rfloor> \<le> round_half_even x" "round_half_even x \<le> \<lfloor>x\<rfloor> + 1"
  by (simp_all add: round_half_even_def Let_def)

lemma round_half_even_mono: "x \<le> y \<Longrightarrow> round_half_even x \<le> round_half_even y"
proof -
  assume le: "x \<le> y"
  then have fl: "\<lfloor>x\<rfloor> \<le> \<lfloor>y\<rfloor>" by (rule floor_mono)
  show ?thesis
  proof (cases "\<lfloor>x\<rfloor> = \<lfloor>y\<rfloor>")
    case True
    then show ?thesis using le by (auto simp add: round_half_even_def Let_def)
  next
    case False
    then have "\<lfloor>x\<rfloor> + 1 \<le> \<lfloor>y\<rfloor>" using fl by simp
    then show ?thesis
      using round_half_even_bounds(2)[of x] round_half_even_bounds(1)[of y] by linarith
  qed
qed

lemma round_half_even_int: "round_half_even (of_int n) = n"
  by (simp add: round_half_even_def)

lemma round_to_grid_mono: "x \<le> y \<Longrightarrow> round_to_grid e x \<le> round_to_grid e y"
proof -
  assume "x \<le> y"
  then have "x / 2 powr of_int e \<le> y / 2 powr of_int e" by (simp add: divide_right_mono)
  then have "round_half_even (x / 2 powr of_int e) \<le> round_half_even (y / 2 powr of_int e)"
    by (rule round_half_even_mono)
  then show ?thesis by (simp add: round_to_grid_def)
qed

lemma round_to_grid_zero: "round_to_grid e 0 = 0"
  using round_half_even_int[of 0] by (simp add: round_to_grid_def)

lemma round_to_grid_pow2:
  assumes "e \<le> k"
  shows "round_to_grid e (2 powr of_int k) = 2 powr of_int k"
proof -
  have "2 powr real_of_int k / 2 powr real_of_int e = 2 powr real_of_int (k - e)"
    by (simp add: powr_diff)
  also have "\<dots> = 2 powr real (nat (k - e))" using assms by simp
  also have "\<dots> = 2 ^ nat (k - e)" by (simp add: powr_realpow)
  also have "\<dots> = real_of_int (2 ^ nat (k - e))" by simp
  finally have "round_half_even (2 powr real_of_int k / 2 powr real_of_int e) = 2 ^ nat (k - e)"
    by (simp only: round_half_even_int)
  then have "round_to_grid e (2 powr of_int k) = 2 ^ nat (k - e) * 2 powr of_int e"
    by (simp add: round_to_grid_def)
  also have "\<dots> = 2 powr real (nat (k - e)) * 2 powr of_int e" by (simp add: powr_realpow)
  also have "\<dots> = 2 powr of_int k" using assms by (simp flip: powr_add)
  finally show ?thesis .
qed

lemma floor_log2_bounds:
  assumes "0 < x"
  shows "2 powr of_int \<lfloor>log 2 x\<rfloor> \<le> x" "x < 2 powr (of_int \<lfloor>log 2 x\<rfloor> + 1)"
proof -
  show "2 powr of_int \<lfloor>log 2 x\<rfloor> \<le> x"
    using le_log_iff[of 2 x "of_int \<lfloor>log 2 x\<rfloor>"] assms by simp
  have "log 2 x < of_int \<lfloor>log 2 x\<rfloor> + 1" by linarith
  then show "x < 2 powr (of_int \<lfloor>log 2 x\<rfloor> + 1)"
    using log_less_iff[of 2 x "of_int \<lfloor>log 2 x\<rfloor> + 1"] assms by simp
qed

lemma b64_exponent_mono: "0 < x \<Longrightarrow> x \<le> y \<Longrightarrow> b64_exponent x \<le> b64_exponent y"
proof -
  assume "0 < x" "x \<le> y"
  then have "log 2 x \<le> log 2 y" by simp
  then have "\<lfloor>log 2 x\<rfloor> \<le> \<lfloor>log 2 y\<rfloor>" by (rule floor_mono)
  then show ?thesis using \<open>0 < x\<close> \<open>x \<le> y\<close> by (simp add: b64_exponent_def)
qed

lemma round_to_grid_b64_mono:
  assumes "0 < x" "x \<le> y"
  shows "round_to_grid (b64_exponent x) x \<le> round_to_grid (b64_exponent y) y"
proof (cases "b64_exponent x = b64_exponent y")
  case True
  then show ?thesis using assms(2) by (simp add: round_to_grid_mono)
next
  case False
  define k where "k = \<lfloor>log 2 y\<rfloor>"
  have y: "0 < y" using assms by simp
  have lt: "b64_exponent x < b64_exponent y"
    using False b64_exponent_mono[OF assms] by simp
  have lo: "- 1074 \<le> b64_exponent x" by (simp add: b64_exponent_def)
  have ey: "b64_exponent y = k - 52"
    using lt lo y by (simp add: b64_exponent_def k_def max_def split: if_splits)
  have "\<lfloor>log 2 x\<rfloor> - 52 \<le> b64_exponent x" using assms(1) by (simp add: b64_exponent_def)
  then have kk: "\<lfloor>log 2 x\<rfloor> + 1 \<le> k" using lt ey by simp
  have "x < 2 powr (of_int \<lfloor>log 2 x\<rfloor> + 1)" using assms(1) by (rule floor_log2_bounds)
  also have "\<dots> \<le> 2 powr of_int k"
  proof -
    have "real_of_int \<lfloor>log 2 x\<rfloor> + 1 \<le> real_of_int k" using kk by linarith
    then show ?thesis by simp
  qed
  finally have xk: "x \<le> 2 powr of_int k" by simp
  have ky: "2 powr of_int k \<le> y" unfolding k_def using y by (rule floor_log2_bounds)
  have "round_to_grid (b64_exponent x) x \<le> round_to_grid (b64_exponent x) (2 powr of_int k)"
    using xk by (rule round_to_grid_mono)
  also have "\<dots> = 2 powr of_int k" using lt ey by (intro round_to_grid_pow2) simp
  also have "\<dots> = round_to_grid (b64_exponent y) (2 powr of_int k)"
    using ey by (intro round_to_grid_pow2[symmetric]) simp
  also have "\<dots> \<le> round_to_grid (b64_exponent y) y"
    using ky by (rule round_to_grid_mono)
  finally show ?thesis .
qed

lemma round_to_grid_nonneg: "0 \<le> x \<Longrightarrow> 0 \<le> round_to_grid e x"
  using round_to_grid_mono[of 0 x e] by (simp add: round_to_grid_zero)

text \<open>Rounding a non-negative number gives a non-negative float or plus infinity.\<close>

lemma b64_round_nonneg_cases:
  assumes "0 \<le> x"
  obtains y where "b64_round x = Finite y" "0 \<le> y" | "b64_round x = PInf"
proof (cases "x = 0")
  case True
  then have "b64_round x = Finite 0" by (simp add: b64_round_def)
  then show ?thesis using that(1) by simp
next
  case False
  then have pos: "0 < x" using assms by simp
  let ?y = "round_to_grid (b64_exponent x) x"
  have y: "0 \<le> ?y" using assms by (rule round_to_grid_nonneg)
  show ?thesis
  proof (cases "2 ^ 1024 \<le> \<bar>?y\<bar>")
    case True
    then have "b64_round x = PInf" using pos by (simp add: b64_round_def Let_def)
    then show ?thesis by (rule that(2))
  next
    case False
    then have "b64_round x = Finite ?y" using pos by (simp add: b64_round_def Let_def)
    then show ?thesis using y by (rule that(1))
  qed
qed

lemma b64_round_mono:
  assumes "0 \<le> x" "x \<le> y"
  shows "f_le (b64_round x) (b64_round y)"
proof (cases "x = 0")
  case True
  have "0 \<le> y" using assms by simp
  then show ?thesis
    by (rule b64_round_nonneg_cases) (simp_all add: True b64_round_def)
next
  case False
  then have x: "0 < x" and y: "0 < y" using assms by simp_all
  let ?a = "round_to_grid (b64_exponent x) x" and ?b = "round_to_grid (b64_exponent y) y"
  have ab: "?a \<le> ?b" using x assms(2) by (rule round_to_grid_b64_mono)
  have a: "0 \<le> ?a" using assms(1) by (rule round_to_grid_nonneg)
  show ?thesis using x y ab a by (simp add: b64_round_def Let_def)
qed


subsection \<open>Rounding at particular numbers\<close>

lemma b64_exponent_pow2: "b64_exponent (2 powr of_int k) = max (k - 52) (- 1074)"
  by (simp add: b64_exponent_def)

lemma b64_round_pow2:
  assumes "- 1074 \<le> k" "k \<le> 1023"
  shows "b64_round (2 powr of_int k) = Finite (2 powr of_int k)"
proof -
  have e: "b64_exponent (2 powr of_int k) \<le> k"
    using assms by (simp add: b64_exponent_pow2)
  have v: "round_to_grid (b64_exponent (2 powr of_int k)) (2 powr of_int k) = 2 powr of_int k"
    using e by (rule round_to_grid_pow2)
  have "2 powr real_of_int k < 2 powr 1024" using assms by (intro powr_less_mono) auto
  also have "(2::real) powr 1024 = 2 ^ 1024" by simp
  finally have "\<not> 2 ^ 1024 \<le> \<bar>2 powr real_of_int k\<bar>" by simp
  then show ?thesis by (simp add: b64_round_def Let_def v)
qed

lemma b64_round_overflow_pow2:
  assumes "1024 \<le> k"
  shows "b64_round (2 powr of_int k) = PInf"
proof -
  have e: "b64_exponent (2 powr of_int k) \<le> k"
    using assms by (simp add: b64_exponent_pow2)
  have v: "round_to_grid (b64_exponent (2 powr of_int k)) (2 powr of_int k) = 2 powr of_int k"
    using e by (rule round_to_grid_pow2)
  have "(2::real) ^ 1024 = 2 powr 1024" by simp
  also have "\<dots> \<le> 2 powr real_of_int k" using assms by (intro powr_mono) auto
  finally have "2 ^ 1024 \<le> \<bar>2 powr real_of_int k\<bar>" by simp
  then show ?thesis by (simp add: b64_round_def Let_def v)
qed

lemma b64_round_finite:
  assumes k: "2 powr of_int k \<le> \<bar>x\<bar>" "\<bar>x\<bar> < 2 powr (of_int k + 1)"
    and e: "e = max (k - 52) (- 1074)"
    and m: "round_half_even (x / 2 powr of_int e) = m"
    and y: "\<bar>real_of_int m * 2 powr of_int e\<bar> < 2 ^ 1024"
  shows "b64_round x = Finite (of_int m * 2 powr of_int e)"
proof -
  have "(0::real) < 2 powr of_int k" by simp
  then have nz: "x \<noteq> 0" using k(1) by auto
  have "\<lfloor>log 2 \<bar>x\<bar>\<rfloor> = k"
  proof (rule floor_unique)
    have pos: "0 < \<bar>x\<bar>" using nz by simp
    show "of_int k \<le> log 2 \<bar>x\<bar>" using le_log_iff[of 2 "\<bar>x\<bar>" "of_int k"] k(1) pos by simp
    show "log 2 \<bar>x\<bar> < of_int k + 1"
      using log_less_iff[of 2 "\<bar>x\<bar>" "of_int k + 1"] k(2) pos by simp
  qed
  then show ?thesis using nz e m y
    by (simp add: b64_round_def b64_exponent_def round_to_grid_def Let_def)
qed

lemma round_half_even_tie_even: "even n \<Longrightarrow> round_half_even (of_int n + 1 / 2) = n"
proof -
  assume e: "even n"
  have "\<lfloor>real_of_int n + 1 / 2\<rfloor> = n" by (rule floor_unique) simp_all
  then show ?thesis using e by (simp add: round_half_even_def)
qed


lemma b64_round_0: "b64_round 0 = Finite 0"
  by (simp add: b64_round_def)

lemma b64_round_1: "b64_round 1 = Finite 1"
  using b64_round_pow2[of 0] by simp

lemma b64_round_2: "b64_round 2 = Finite 2"
  using b64_round_pow2[of 1] by simp


lemma b64_round_half: "b64_round (1 / 2) = Finite (1 / 2)"
  using b64_round_pow2[of "- 1"] by (simp add: powr_minus_divide)

lemma b64_round_2_53: "b64_round 9007199254740992 = Finite 9007199254740992"
  using b64_round_pow2[of 53] by simp

lemma b64_round_2_m53: "b64_round (1 / 9007199254740992) = Finite (1 / 9007199254740992)"
  using b64_round_pow2[of "- 53"] by (simp add: powr_minus_divide)

lemma b64_round_2_53_1: "b64_round 9007199254740993 = Finite 9007199254740992"
proof -
  have "round_half_even ((2 ^ 53 + 1) / 2 powr of_int 1) = 2 ^ 52"
    using round_half_even_tie_even[of "2 ^ 52"] by simp
  from b64_round_finite[where k = 53 and e = 1, OF _ _ _ this]
  show ?thesis by simp
qed


lemma b64_round_min_half: "b64_round (2 powr (- 1074) * (1 / 2)) = Finite 0"
proof -
  have x: "2 powr (- 1074) * (1 / 2) = (2::real) powr of_int (- 1075)"
  proof -
    have "(1 / 2 :: real) = 2 powr (- 1)" by (simp add: powr_minus_divide)
    then have "2 powr (- 1074) * (1 / 2) = (2::real) powr (- 1074) * 2 powr (- 1)" by simp
    also have "\<dots> = 2 powr (- 1074 + - 1)" by (rule powr_add[symmetric])
    finally show ?thesis by simp
  qed
  have q: "(2::real) powr of_int (- 1075) / 2 powr of_int (- 1074) = of_int 0 + 1 / 2"
  proof -
    have "(2::real) powr of_int (- 1075) / 2 powr of_int (- 1074) =
        2 powr (of_int (- 1075) - of_int (- 1074))"
      by (rule powr_diff[symmetric])
    also have "\<dots> = 2 powr (- 1)" by simp
    also have "\<dots> = of_int 0 + 1 / 2" by (simp add: powr_minus_divide)
    finally show ?thesis .
  qed
  have m: "round_half_even (2 powr of_int (- 1075) / 2 powr of_int (- 1074)) = 0"
    unfolding q by (rule round_half_even_tie_even) simp
  have "b64_round (2 powr of_int (- 1075)) = Finite (of_int 0 * 2 powr of_int (- 1074))"
    by (rule b64_round_finite[where k = "- 1075", OF _ _ _ m]) simp_all
  then show ?thesis by (simp only: x) simp
qed



subsection \<open>The binary64 operations on non-negative numbers\<close>

lemma b64_round_nonneg: "0 \<le> x \<Longrightarrow> f_le (Finite 0) (b64_round x)"
  using b64_round_mono[of 0 x] by (simp add: b64_round_def)

lemma float_of_int_mono:
  assumes "0 \<le> n" "n \<le> n'" "float_of_int n = Inr a" "float_of_int n' = Inr a'"
  shows "0 \<le> a \<and> a \<le> a'"
proof -
  have a: "b64_round (of_int n) = Finite a" and a': "b64_round (of_int n') = Finite a'"
    using assms(3,4) by (auto simp add: float_of_int_def split: f64.splits)
  have "f_le (Finite 0) (b64_round (of_int n))" using assms(1) by (intro b64_round_nonneg) simp
  moreover have "f_le (b64_round (of_int n)) (b64_round (of_int n'))"
    using assms(1,2) by (intro b64_round_mono) simp_all
  ultimately show ?thesis by (simp add: a a')
qed

lemma f_mul_pos_mono:
  assumes "0 < c" "f_le (Finite 0) s" "f_le s s'"
  shows "f_le (Finite 0) (f_mul (Finite c) s) \<and> f_le (f_mul (Finite c) s) (f_mul (Finite c) s')"
proof (cases s)
  case (Finite a)
  then have a: "0 \<le> a" using assms(2) by simp
  then have ca: "0 \<le> c * a" using assms(1) by simp
  have n: "f_le (Finite 0) (b64_round (c * a))" using ca by (rule b64_round_nonneg)
  show ?thesis
  proof (cases s')
    case (Finite a')
    then have "a \<le> a'" using assms(3) \<open>s = Finite a\<close> by simp
    then have cc: "c * a \<le> c * a'" using assms(1) by simp
    have "f_le (b64_round (c * a)) (b64_round (c * a'))" using ca cc by (rule b64_round_mono)
    then show ?thesis using n Finite \<open>s = Finite a\<close> by simp
  next
    case PInf
    have "f_le (b64_round (c * a)) PInf"
      using ca by (rule b64_round_nonneg_cases) simp_all
    then show ?thesis using n PInf \<open>s = Finite a\<close> assms(1) by simp
  next
    case NInf
    then show ?thesis using assms(3) \<open>s = Finite a\<close> by simp
  next
    case NaN
    then show ?thesis using assms(3) \<open>s = Finite a\<close> by simp
  qed
next
  case PInf
  then have "s' = PInf" using assms(3) by (cases s') simp_all
  then show ?thesis using PInf assms(1) by simp
next
  case NInf
  then show ?thesis using assms(2) by simp
next
  case NaN
  then show ?thesis using assms(2) by simp
qed

lemma f_truediv_pos_antimono:
  assumes "0 \<le> c" "f_le (Finite 0) d" "f_le d d'"
    and "f_truediv (Finite c) d = Inr r" "f_truediv (Finite c) d' = Inr r'"
  shows "f_le (Finite 0) r' \<and> f_le r' r"
proof (cases d)
  case (Finite a)
  then have a: "0 < a" using assms(2,4) by (cases "a = 0") simp_all
  have r: "r = b64_round (c / a)" using assms(4) Finite a by simp
  have nr: "f_le (Finite 0) r" unfolding r using assms(1) a by (intro b64_round_nonneg) simp
  show ?thesis
  proof (cases d')
    case (Finite a')
    then have aa: "a \<le> a'" using assms(3) \<open>d = Finite a\<close> by simp
    then have a': "0 < a'" using a by simp
    have r': "r' = b64_round (c / a')" using assms(5) Finite a' by simp
    have "c / a' \<le> c / a" using aa a assms(1) by (simp add: frac_le)
    moreover have "0 \<le> c / a'" using assms(1) a' by simp
    ultimately have "f_le (b64_round (c / a')) (b64_round (c / a))" by (intro b64_round_mono)
    moreover have "f_le (Finite 0) (b64_round (c / a'))"
      using \<open>0 \<le> c / a'\<close> by (rule b64_round_nonneg)
    ultimately show ?thesis by (simp add: r r')
  next
    case PInf
    then have "r' = Finite 0" using assms(5) by simp
    then show ?thesis using nr by simp
  next
    case NInf
    then show ?thesis using assms(3) \<open>d = Finite a\<close> by simp
  next
    case NaN
    then show ?thesis using assms(3) \<open>d = Finite a\<close> by simp
  qed
next
  case PInf
  then have "d' = PInf" using assms(3) by (cases d') simp_all
  then show ?thesis using PInf assms(4,5) by auto
next
  case NInf
  then show ?thesis using assms(2) by simp
next
  case NaN
  then show ?thesis using assms(2) by simp
qed

lemma get64_OptimalLR_nonincreasing:
  assumes "0 < alpha" "0 < t0" "0 \<le> t"
    and "get64 (OptimalLR t0 alpha) t = Inr x" "get64 (OptimalLR t0 alpha) (t + 1) = Inr x'"
  shows "\<exists>r r'. x = PyFloat64 r \<and> x' = PyFloat64 r' \<and> f_le (Finite 0) r' \<and> f_le r' r"
proof -
  obtain a where a: "float_of_int t = Inr a"
    using assms(4) by (cases "float_of_int t") simp_all
  obtain a' where a': "float_of_int (t + 1) = Inr a'"
    using assms(5) by (cases "float_of_int (t + 1)") simp_all
  let ?d = "f_mul (Finite alpha) (f_add (Finite a) (Finite t0))"
  let ?d' = "f_mul (Finite alpha) (f_add (Finite a') (Finite t0))"
  obtain r where r: "f_truediv (Finite 1) ?d = Inr r" "x = PyFloat64 r"
    using assms(4) a by (cases "f_truediv (Finite 1) ?d") auto
  obtain r' where r': "f_truediv (Finite 1) ?d' = Inr r'" "x' = PyFloat64 r'"
    using assms(5) a' by (cases "f_truediv (Finite 1) ?d'") auto
  have aa: "0 \<le> a \<and> a \<le> a'" using assms(3) a a' by (intro float_of_int_mono[of t "t + 1"]) simp_all
  have s0: "f_le (Finite 0) (f_add (Finite a) (Finite t0))"
    using aa assms(2) by (simp add: b64_round_nonneg)
  have ss: "f_le (f_add (Finite a) (Finite t0)) (f_add (Finite a') (Finite t0))"
    using aa assms(2) by (simp add: b64_round_mono)
  have d: "f_le (Finite 0) ?d \<and> f_le ?d ?d'"
    using assms(1) s0 ss by (rule f_mul_pos_mono)
  have "f_le (Finite 0) r' \<and> f_le r' r"
    using d r(1) r'(1) by (intro f_truediv_pos_antimono[of 1 ?d ?d']) simp_all
  then show ?thesis using r(2) r'(2) by simp
qed

subsection \<open>Division by zero in binary64\<close>


subsection \<open>Rounding commutes with negation\<close>

lemma round_half_even_cases:
  "x - of_int \<lfloor>x\<rfloor> < 1 / 2 \<Longrightarrow> round_half_even x = \<lfloor>x\<rfloor>"
  "1 / 2 < x - of_int \<lfloor>x\<rfloor> \<Longrightarrow> round_half_even x = \<lfloor>x\<rfloor> + 1"
  "x - of_int \<lfloor>x\<rfloor> = 1 / 2 \<Longrightarrow> round_half_even x = (if even \<lfloor>x\<rfloor> then \<lfloor>x\<rfloor> else \<lfloor>x\<rfloor> + 1)"
  by (simp_all add: round_half_even_def Let_def)

lemma round_half_even_near: "\<bar>x - of_int m\<bar> < 1 / 2 \<Longrightarrow> round_half_even x = m"
proof -
  assume "\<bar>x - of_int m\<bar> < 1 / 2"
  then have a: "x - of_int m < 1 / 2" "of_int m - x < 1 / 2" by linarith+
  consider "of_int m \<le> x" | "x < of_int m" by linarith
  then show ?thesis
  proof cases
    case 1
    have f: "\<lfloor>x\<rfloor> = m" using a 1 by (intro floor_unique) linarith+
    have "x - of_int \<lfloor>x\<rfloor> < 1 / 2" using a unfolding f by simp
    then show ?thesis using f by (simp add: round_half_even_cases(1))
  next
    case 2
    have "real_of_int (m - 1) \<le> x" using a by simp
    moreover have "x < real_of_int (m - 1) + 1" using 2 by simp
    ultimately have f: "\<lfloor>x\<rfloor> = m - 1" by (rule floor_unique)
    have "1 / 2 < x - of_int \<lfloor>x\<rfloor>" using a unfolding f by simp
    then show ?thesis using f by (simp add: round_half_even_cases(2))
  qed
qed

lemma round_half_even_tie_odd: "odd n \<Longrightarrow> round_half_even (of_int n + 1 / 2) = n + 1"
proof -
  assume e: "odd n"
  have "\<lfloor>real_of_int n + 1 / 2\<rfloor> = n" by (rule floor_unique) simp_all
  then show ?thesis using e by (simp add: round_half_even_def)
qed

lemma round_half_even_minus: "round_half_even (- x) = - round_half_even x"
proof (cases "x = of_int \<lfloor>x\<rfloor>")
  case True
  then obtain n :: int where x: "x = of_int n" by blast
  have "round_half_even (of_int (- n)) = - n" by (rule round_half_even_int)
  then show ?thesis using x by (simp add: round_half_even_int)
next
  case False
  define n where "n = \<lfloor>x\<rfloor>"
  define d where "d = x - of_int n"
  have "of_int n \<le> x" "x < of_int n + 1" unfolding n_def by linarith+
  moreover have "x \<noteq> of_int n" using False by (simp add: n_def)
  ultimately have d: "0 < d" "d < 1" by (simp_all add: d_def)
  have x: "x = of_int n + d" by (simp add: d_def)
  have "real_of_int (- n - 1) \<le> - x" "- x < real_of_int (- n - 1) + 1"
    using d by (simp_all add: x)
  then have fm: "\<lfloor>- x\<rfloor> = - n - 1" by (rule floor_unique)
  have dm: "- x - of_int \<lfloor>- x\<rfloor> = 1 - d" unfolding fm by (simp add: x)
  have dx: "x - of_int \<lfloor>x\<rfloor> = d" by (simp add: d_def n_def)
  consider "d < 1 / 2" | "1 / 2 < d" | "d = 1 / 2" by linarith
  then show ?thesis
  proof cases
    case 1
    have "round_half_even x = n" using 1 dx round_half_even_cases(1)[of x] by (simp add: n_def)
    moreover have "round_half_even (- x) = - n"
      using 1 dm fm round_half_even_cases(2)[of "- x"] by simp
    ultimately show ?thesis by simp
  next
    case 2
    have "round_half_even x = n + 1" using 2 dx round_half_even_cases(2)[of x] by (simp add: n_def)
    moreover have "round_half_even (- x) = - n - 1"
      using 2 dm fm round_half_even_cases(1)[of "- x"] by simp
    ultimately show ?thesis by simp
  next
    case 3
    have a: "round_half_even x = (if even n then n else n + 1)"
      using 3 dx round_half_even_cases(3)[of x] by (simp add: n_def)
    have b: "round_half_even (- x) = (if even (- n - 1) then - n - 1 else - n)"
      using 3 dm fm round_half_even_cases(3)[of "- x"] by simp
    show ?thesis by (cases "even n") (simp_all add: a b)
  qed
qed

lemma round_to_grid_minus: "round_to_grid e (- x) = - round_to_grid e x"
  by (simp add: round_to_grid_def round_half_even_minus)

lemma b64_exponent_minus: "b64_exponent (- x) = b64_exponent x"
  by (simp add: b64_exponent_def)

lemma b64_round_minus: "b64_round (- x) = f_neg (b64_round x)"
  by (simp add: b64_round_def Let_def round_to_grid_minus b64_exponent_minus)

subsection \<open>The largest float\<close>

lemma b64_round_value:
  assumes k: "2 powr of_int k \<le> \<bar>x\<bar>" "\<bar>x\<bar> < 2 powr (of_int k + 1)"
    and e: "e = max (k - 52) (- 1074)"
    and m: "round_half_even (x / 2 powr of_int e) = m"
  shows "b64_round x =
     (if 2 ^ 1024 \<le> \<bar>real_of_int m * 2 powr of_int e\<bar> then (if 0 < x then PInf else NInf)
      else Finite (of_int m * 2 powr of_int e))"
proof -
  have "(0::real) < 2 powr of_int k" by simp
  then have nz: "x \<noteq> 0" using k(1) by auto
  have "\<lfloor>log 2 \<bar>x\<bar>\<rfloor> = k"
  proof (rule floor_unique)
    have pos: "0 < \<bar>x\<bar>" using nz by simp
    show "of_int k \<le> log 2 \<bar>x\<bar>" using le_log_iff[of 2 "\<bar>x\<bar>" "of_int k"] k(1) pos by simp
    show "log 2 \<bar>x\<bar> < of_int k + 1"
      using log_less_iff[of 2 "\<bar>x\<bar>" "of_int k + 1"] k(2) pos by simp
  qed
  then show ?thesis using nz e m
    by (simp add: b64_round_def b64_exponent_def round_to_grid_def Let_def)
qed

text \<open>The largest float is \<open>2 ^ 1024 - 2 ^ 971\<close>; halfway to \<open>2 ^ 1024\<close> rounding overflows.\<close>

lemma b64_round_below_threshold:
  "b64_round (2 ^ 1024 - 2 ^ 970 - 1) = Finite (2 ^ 1024 - 2 ^ 971)"
proof -
  have p: "(2::real) powr of_int 971 = 2 ^ 971" "(2::real) powr of_int 1023 = 2 ^ 1023"
    "(2::real) powr (of_int 1023 + 1) = 2 ^ 1024"
    by (simp_all add: powr_realpow[symmetric])
  have "\<bar>(2 ^ 1024 - 2 ^ 970 - 1) / 2 ^ 971 - real_of_int (2 ^ 53 - 1)\<bar> < 1 / 2"
    by simp
  then have m: "round_half_even ((2 ^ 1024 - 2 ^ 970 - 1) / 2 powr of_int 971) = 2 ^ 53 - 1"
    unfolding p by (rule round_half_even_near)
  have "b64_round (2 ^ 1024 - 2 ^ 970 - 1) =
     (if 2 ^ 1024 \<le> \<bar>real_of_int (2 ^ 53 - 1) * 2 powr of_int 971\<bar>
      then (if (0::real) < 2 ^ 1024 - 2 ^ 970 - 1 then PInf else NInf)
      else Finite (of_int (2 ^ 53 - 1) * 2 powr of_int 971))"
    by (rule b64_round_value[where k = 1023, OF _ _ _ m]) (simp_all add: p)
  then show ?thesis unfolding p by simp
qed

lemma b64_round_threshold: "b64_round (2 ^ 1024 - 2 ^ 970) = PInf"
proof -
  have p: "(2::real) powr of_int 971 = 2 ^ 971" "(2::real) powr of_int 1023 = 2 ^ 1023"
    "(2::real) powr (of_int 1023 + 1) = 2 ^ 1024"
    by (simp_all add: powr_realpow[symmetric])
  have "((2::real) ^ 1024 - 2 ^ 970) / 2 ^ 971 = real_of_int (2 ^ 53 - 1) + 1 / 2"
    by simp
  moreover have "round_half_even (real_of_int (2 ^ 53 - 1) + 1 / 2) = (2 ^ 53 - 1) + 1"
    by (rule round_half_even_tie_odd) simp
  ultimately have m: "round_half_even ((2 ^ 1024 - 2 ^ 970) / 2 powr of_int 971) = 2 ^ 53"
    unfolding p by simp
  have "b64_round (2 ^ 1024 - 2 ^ 970) =
     (if 2 ^ 1024 \<le> \<bar>real_of_int (2 ^ 53) * 2 powr of_int 971\<bar>
      then (if (0::real) < 2 ^ 1024 - 2 ^ 970 then PInf else NInf)
      else Finite (of_int (2 ^ 53) * 2 powr of_int 971))"
    by (rule b64_round_value[where k = 1023, OF _ _ _ m]) (simp_all add: p)
  then show ?thesis unfolding p by simp
qed


subsection \<open>Conversion of an int\<close>

lemma float_of_int_error: "float_of_int n = Inl e \<Longrightarrow> e = OverflowError"
  by (auto simp add: float_of_int_def split: f64.splits)


lemma float_of_int_1: "float_of_int 1 = Inr 1"
  by (simp add: float_of_int_def b64_round_1)

lemma float_of_int_minus: "float_of_int (- n) = map_sum id uminus (float_of_int n)"
  by (cases "b64_round (of_int n)") (simp_all add: float_of_int_def b64_round_minus)

lemma float_of_int_nonneg_overflow_iff:
  assumes "0 \<le> n"
  shows "float_of_int n = Inl OverflowError \<longleftrightarrow> 2 ^ 1024 - 2 ^ 970 \<le> n"
proof (cases "2 ^ 1024 - 2 ^ 970 \<le> n")
  case True
  then have "real_of_int (2 ^ 1024 - 2 ^ 970) \<le> of_int n" by (simp only: of_int_le_iff)
  then have "(2::real) ^ 1024 - 2 ^ 970 \<le> of_int n" by simp
  then have "f_le (b64_round (2 ^ 1024 - 2 ^ 970)) (b64_round (of_int n))"
    by (intro b64_round_mono) simp_all
  then have "b64_round (of_int n) = PInf"
    unfolding b64_round_threshold by (cases "b64_round (of_int n)") simp_all
  then show ?thesis using True by (simp add: float_of_int_def)
next
  case False
  then have "n \<le> 2 ^ 1024 - 2 ^ 970 - 1" by simp
  then have "real_of_int n \<le> of_int (2 ^ 1024 - 2 ^ 970 - 1)" by (simp only: of_int_le_iff)
  then have "real_of_int n \<le> 2 ^ 1024 - 2 ^ 970 - 1" by simp
  moreover have "0 \<le> real_of_int n" using assms by simp
  ultimately have "f_le (b64_round (of_int n)) (b64_round (2 ^ 1024 - 2 ^ 970 - 1))"
    by (intro b64_round_mono)
  moreover have "f_le (Finite 0) (b64_round (of_int n))"
    using assms by (intro b64_round_nonneg) simp
  ultimately have "\<exists>y. b64_round (of_int n) = Finite y"
    unfolding b64_round_below_threshold by (cases "b64_round (of_int n)") simp_all
  then show ?thesis using False by (auto simp add: float_of_int_def)
qed

lemma float_of_int_overflow_iff:
  "float_of_int n = Inl OverflowError \<longleftrightarrow> 2 ^ 1024 - 2 ^ 970 \<le> \<bar>n\<bar>"
proof (cases "0 \<le> n")
  case True
  then show ?thesis using float_of_int_nonneg_overflow_iff[of n] by simp
next
  case False
  then have n: "0 \<le> - n" "\<bar>n\<bar> = - n" by simp_all
  have "float_of_int n = Inl OverflowError \<longleftrightarrow> float_of_int (- n) = Inl OverflowError"
    unfolding float_of_int_minus by (cases "float_of_int n") simp_all
  then show ?thesis using float_of_int_nonneg_overflow_iff[OF n(1)] n(2) by simp
qed




subsection \<open>The power of an int\<close>







subsection \<open>The division\<close>




subsection \<open>The failures of the calls\<close>






subsection \<open>More particular numbers\<close>

lemma b64_round_near:
  assumes "2 powr of_int k \<le> \<bar>x\<bar>" "\<bar>x\<bar> < 2 powr (of_int k + 1)"
    and "e = max (k - 52) (- 1074)"
    and "\<bar>x / 2 powr of_int e - of_int m\<bar> < 1 / 2"
    and "\<bar>real_of_int m * 2 powr of_int e\<bar> < 2 ^ 1024"
  shows "b64_round x = Finite (of_int m * 2 powr of_int e)"
  using b64_round_finite[OF assms(1-3) round_half_even_near[OF assms(4)] assms(5)] .

lemma b64_round_3: "b64_round 3 = Finite 3"
proof -
  have "b64_round 3 = Finite (of_int (3 * 2 ^ 51) * 2 powr of_int (- 51))"
    by (rule b64_round_near[where k = 1]) (simp_all add: powr_minus_divide)
  then show ?thesis by (simp add: powr_minus_divide)
qed

lemma b64_round_third: "b64_round (1 / 3) = Finite (6004799503160661 / 2 ^ 54)"
proof -
  have "b64_round (1 / 3) = Finite (of_int 6004799503160661 * 2 powr of_int (- 54))"
    by (rule b64_round_near[where k = "- 2"]) (simp_all add: powr_minus_divide)
  then show ?thesis by (simp add: powr_minus_divide)
qed

lemma b64_round_1000: "b64_round 1000 = Finite 1000"
proof -
  have "b64_round 1000 = Finite (of_int (1000 * 2 ^ 43) * 2 powr of_int (- 43))"
    by (rule b64_round_near[where k = 9]) (simp_all add: powr_minus_divide)
  then show ?thesis by (simp add: powr_minus_divide)
qed

text \<open>The float \<open>1e-4\<close> is \<open>7378697629483821 / 2 ^ 66\<close>; \<open>1e-4 * 1000.0\<close> is the float \<open>0.1\<close>.\<close>

lemma b64_round_1em4: "b64_round (7378697629483821 / 2 ^ 66) = Finite (7378697629483821 / 2 ^ 66)"
proof -
  have "b64_round (7378697629483821 / 2 ^ 66) =
      Finite (of_int 7378697629483821 * 2 powr of_int (- 66))"
    by (rule b64_round_near[where k = "- 14"]) (simp_all add: powr_minus_divide)
  then show ?thesis by (simp add: powr_minus_divide)
qed

lemma b64_round_1em4_times_1000:
  "b64_round (7378697629483821 / 2 ^ 66 * 1000) = Finite (3602879701896397 / 2 ^ 55)"
proof -
  have "b64_round (7378697629483821 / 2 ^ 66 * 1000) =
      Finite (of_int 7205759403792794 * 2 powr of_int (- 56))"
    by (rule b64_round_near[where k = "- 4"]) (simp_all add: powr_minus_divide)
  then show ?thesis by (simp add: powr_minus_divide)
qed

lemma b64_round_recip_tenth: "b64_round (1 / (3602879701896397 / 2 ^ 55)) = Finite 10"
proof -
  have "b64_round (1 / (3602879701896397 / 2 ^ 55)) =
      Finite (of_int (10 * 2 ^ 49) * 2 powr of_int (- 49))"
    by (rule b64_round_near[where k = 3]) (simp_all add: powr_minus_divide)
  then show ?thesis by (simp add: powr_minus_divide)
qed


subsection \<open>The sample of the library's \<open>pow\<close>\<close>






subsection \<open>The rate of \<open>InverseScalingLR\<close> at a non-negative step\<close>








subsection \<open>The rate of \<open>InverseScalingLR\<close> at a negative base\<close>


subsection \<open>The rate of \<open>InverseScalingLR\<close> with power zero\<close>

lemma get64_with_InverseScalingLR_power_zero:
  "get64_with L (InverseScalingLR r 0) t =
     (if \<bar>t + 1\<bar> < 2 ^ 1024 - 2 ^ 970 then Inr (PyFloat64 (b64_round r))
      else Inl OverflowError)"
proof (cases "float_of_int (t + 1)")
  case (Inl e)
  then have "float_of_int (t + 1) = Inl OverflowError" using float_of_int_error by blast
  then show ?thesis using float_of_int_overflow_iff[of "t + 1"]
    by (simp add: int_float_pow_with_def)
next
  case (Inr x)
  then have "float_of_int (t + 1) \<noteq> Inl OverflowError" by simp
  then have "\<bar>t + 1\<bar> < 2 ^ 1024 - 2 ^ 970" using float_of_int_overflow_iff[of "t + 1"] by simp
  then show ?thesis using Inr
    by (simp add: int_float_pow_with_def float_pow_with_def truediv_with_def)
qed

subsection \<open>Attributes that are ints\<close>

lemma get64_with_OptimalLR_int_t0:
  "get64_with L (OptimalLR_int_t0 t0 alpha) t =
     (case float_of_int (t + t0) of
        Inl e \<Rightarrow> Inl OverflowError
      | Inr s \<Rightarrow>
          map_sum id PyFloat64 (f_truediv (Finite 1) (f_mul (Finite alpha) (Finite s))))"
proof (cases "float_of_int (t + t0)")
  case (Inl e)
  then have "e = OverflowError" by (rule float_of_int_error)
  then show ?thesis using Inl by simp
next
  case (Inr s)
  then show ?thesis by simp
qed









section \<open>Properties\<close>

text \<open>
  In the binary64 statements the attributes are floats, each given by its real value
  (and \<open>t0\<close> or the power an \<open>int\<close> where the statement says so), and \<open>L\<close> is any C
  library: nothing is assumed of its \<open>pow\<close>. The instances are computed with \<open>get64\<close>, at
  inputs where the outcome does not depend on how the library rounds.
\<close>




text \<open>
  C2. As stated (for every non-negative step and all parameters,
  \<open>OptimalLR(t0, alpha).get(step)\<close> is the quotient \<open>1 / (alpha * (step + t0))\<close>), the
  claim fails in binary64, at attributes that are floats.
  \<^item> With \<open>t0 = 0.5\<close> and \<open>alpha = 2.0 ** -1074\<close> the product at step 0 is not zero,
    but it underflows to zero and the call raises \<open>ZeroDivisionError\<close>.
  \<^item> At step \<open>2 ** 1024\<close> the step is too large for a float and the call raises
    \<open>OverflowError\<close>.
  \<^item> With \<open>t0 = alpha = 1.0\<close> the call at step 2 returns the float
    \<open>6004799503160661 / 2 ** 54\<close>, which is not \<open>1 / 3\<close>.
\<close>

theorem OptimalLR_get64_not_quotient:
  "b64_round (1 / 2) = Finite (1 / 2) \<and>
   b64_round (2 powr (- 1074)) = Finite (2 powr (- 1074)) \<and>
   2 powr (- 1074) * (real_of_int 0 + 1 / 2) \<noteq> 0 \<and>
   get64 (OptimalLR (1 / 2) (2 powr (- 1074))) 0 = Inl ZeroDivisionError \<and>
   b64_round 1 = Finite 1 \<and>
   get64 (OptimalLR 1 1) (2 ^ 1024) = Inl OverflowError \<and>
   get64 (OptimalLR 1 1) 2 = Inr (PyFloat64 (Finite (6004799503160661 / 2 ^ 54))) \<and>
   (6004799503160661 / 2 ^ 54 :: real) \<noteq> 1 / (1 * (real_of_int 2 + 1))"
proof -
  have m: "b64_round (2 powr (- 1074)) = Finite (2 powr (- 1074))"
    using b64_round_pow2[of "- 1074"] by simp
  have raises: "get64 (OptimalLR (1 / 2) (2 powr (- 1074))) 0 = Inl ZeroDivisionError"
    using b64_round_min_half
    by (simp add: float_of_int_def b64_round_0 b64_round_half del: powr_numeral)
  have "float_of_int (2 ^ 1024) = Inl OverflowError"
    by (simp only: float_of_int_overflow_iff) simp
  then have large: "get64 (OptimalLR 1 1) (2 ^ 1024) = Inl OverflowError"
    by (simp only: get64_OptimalLR sum.case)
  have third: "get64 (OptimalLR 1 1) 2 = Inr (PyFloat64 (Finite (6004799503160661 / 2 ^ 54)))"
    using b64_round_third by (simp add: float_of_int_def b64_round_2 b64_round_3)
  have nz: "2 powr (- 1074) * (real_of_int 0 + 1 / 2) \<noteq> 0" by simp
  have ne: "(6004799503160661 / 2 ^ 54 :: real) \<noteq> 1 / (1 * (real_of_int 2 + 1))" by simp
  show ?thesis using m raises large third nz ne
    by (simp only: b64_round_1 b64_round_half simp_thms)
qed

text \<open>
  C2, amended. For every integer step and all float attributes, the call
  \<open>OptimalLR(t0, alpha).get(step)\<close> evaluates \<open>1. / (alpha * (step + t0))\<close> in binary64:
  it converts \<open>step\<close> to a float and raises \<open>OverflowError\<close> if
  \<open>|step| \<ge> 2 ** 1024 - 2 ** 970\<close>; the sum and the product are rounded; the result is
  the rounded quotient, with \<open>ZeroDivisionError\<close> if the computed product is zero.
  Where the conversion, the sum and the product are exact and the product is not zero,
  the call returns the real quotient \<open>1 / (alpha * (step + t0))\<close> rounded once.

  With an \<open>int\<close> \<open>t0\<close> the sum \<open>step + t0\<close> is the exact \<open>int\<close>, which the multiplication
  converts to a float, with \<open>OverflowError\<close> if it does not convert; the product is
  rounded, and the result is the rounded quotient, with \<open>ZeroDivisionError\<close> if the
  computed product is zero.
\<close>

theorem OptimalLR_get64_formula:
  "get64_with L (OptimalLR t0 alpha) t =
     (case float_of_int t of
        Inl e \<Rightarrow> Inl OverflowError
      | Inr ft \<Rightarrow>
          map_sum id PyFloat64
            (f_truediv (Finite 1) (f_mul (Finite alpha) (f_add (Finite ft) (Finite t0))))) \<and>
   (float_of_int t = Inl OverflowError \<longleftrightarrow> 2 ^ 1024 - 2 ^ 970 \<le> \<bar>t\<bar>) \<and>
   (float_of_int t = Inr (of_int t) \<longrightarrow>
    b64_round (of_int t + t0) = Finite (of_int t + t0) \<longrightarrow>
    b64_round (alpha * (of_int t + t0)) = Finite (alpha * (of_int t + t0)) \<longrightarrow>
    alpha * (of_int t + t0) \<noteq> 0 \<longrightarrow>
    get64_with L (OptimalLR t0 alpha) t =
      Inr (PyFloat64 (b64_round (1 / (alpha * (of_int t + t0)))))) \<and>
   get64_with L (OptimalLR_int_t0 m alpha) t =
     (case float_of_int (t + m) of
        Inl e \<Rightarrow> Inl OverflowError
      | Inr s \<Rightarrow>
          map_sum id PyFloat64 (f_truediv (Finite 1) (f_mul (Finite alpha) (Finite s))))"
proof -
  have a: "get64_with L (OptimalLR t0 alpha) t =
     (case float_of_int t of
        Inl e \<Rightarrow> Inl OverflowError
      | Inr ft \<Rightarrow>
          map_sum id PyFloat64
            (f_truediv (Finite 1) (f_mul (Finite alpha) (f_add (Finite ft) (Finite t0)))))"
  proof (cases "float_of_int t")
    case (Inl e)
    then have "e = OverflowError" by (rule float_of_int_error)
    then show ?thesis using Inl by simp
  next
    case (Inr ft)
    then show ?thesis by simp
  qed
  have b: "get64_with L (OptimalLR t0 alpha) t =
      Inr (PyFloat64 (b64_round (1 / (alpha * (of_int t + t0)))))"
    if "float_of_int t = Inr (of_int t)"
      "b64_round (of_int t + t0) = Finite (of_int t + t0)"
      "b64_round (alpha * (of_int t + t0)) = Finite (alpha * (of_int t + t0))"
      "alpha * (of_int t + t0) \<noteq> 0"
    using that by simp
  show ?thesis
    using a b float_of_int_overflow_iff[of t] get64_with_OptimalLR_int_t0[of L m alpha t]
    by blast
qed

text \<open>
  With \<open>t0 = alpha = 1.0\<close> at step 1 every operation is exact and the rate is \<open>0.5\<close>.
  With \<open>t0 = 1000.0\<close> and \<open>alpha = 1e-4\<close>, which is the float \<open>7378697629483821 / 2 ** 66\<close>,
  the product at step 0 is rounded to the float \<open>0.1\<close> and the rate is \<open>10.0\<close>; and so
  it is with the default arguments, where \<open>t0\<close> is the \<open>int\<close> 1000.
\<close>

theorem OptimalLR_get64_formula_witness:
  "float_of_int 1 = Inr (of_int 1) \<and> b64_round (of_int 1 + 1) = Finite (of_int 1 + 1) \<and>
   b64_round (1 * (of_int 1 + 1)) = Finite (1 * (of_int 1 + 1)) \<and>
   (1 * (of_int 1 + 1) :: real) \<noteq> 0 \<and>
   get64 (OptimalLR 1 1) 1 = Inr (PyFloat64 (Finite (1 / 2))) \<and>
   b64_round 1000 = Finite 1000 \<and>
   b64_round (7378697629483821 / 2 ^ 66) = Finite (7378697629483821 / 2 ^ 66) \<and>
   get64 (OptimalLR 1000 (7378697629483821 / 2 ^ 66)) 0 = Inr (PyFloat64 (Finite 10)) \<and>
   get64 OptimalLR_default 0 = Inr (PyFloat64 (Finite 10))"
proof -
  have "get64 OptimalLR_default 0 = Inr (PyFloat64 (Finite 10))"
    using OptimalLR_get64_formula[where L = correctly_rounded and t = 0 and m = 1000
          and alpha = "7378697629483821 / 2 ^ 66"]
      b64_round_1em4_times_1000 b64_round_recip_tenth
    by (simp add: OptimalLR_default_def get64_def float_of_int_def b64_round_1000)
  moreover
  have "get64 (OptimalLR 1000 (7378697629483821 / 2 ^ 66)) 0 = Inr (PyFloat64 (Finite 10))"
    using OptimalLR_get64_formula[of correctly_rounded 1000 "7378697629483821 / 2 ^ 66" 0]
      b64_round_1em4_times_1000 b64_round_recip_tenth
    by (simp add: get64_def float_of_int_def b64_round_0 b64_round_1000)
  moreover have "get64 (OptimalLR 1 1) 1 = Inr (PyFloat64 (Finite (1 / 2)))"
    using OptimalLR_get64_formula[of correctly_rounded 1 1 1]
    by (simp add: get64_def float_of_int_def b64_round_1 b64_round_2 b64_round_half)
  ultimately show ?thesis
    using b64_round_1em4
    by (simp add: float_of_int_def b64_round_1 b64_round_2 b64_round_1000)
qed

text \<open>
  C3. For every integer step and every parameter \<open>r\<close>, \<open>ConstantLR(r).get(step)\<close> returns
  the configured rate \<open>r\<close>, whatever the step; in both readings.
\<close>

theorem ConstantLR_get_rate:
  "get (ConstantLR r) t = Inr (PyFloat r) \<and> get64 (ConstantLR r) t = Inr (PyFloat64 (Finite r))"
  by simp

text \<open>
  C4. As stated (for all \<open>alpha > 0\<close>, \<open>t0 > 0\<close> and steps \<open>\<ge> 0\<close> the rate of \<open>OptimalLR\<close>
  is strictly positive and strictly decreasing in the step), the claim fails in
  binary64, at attributes that are positive floats.
  \<^item> With \<open>t0 = alpha = 1.0\<close> the steps \<open>2 ** 53\<close> and \<open>2 ** 53 + 1\<close> get the same rate:
    \<open>float(2 ** 53 + 1)\<close> and \<open>2.0 ** 53 + 1.0\<close> both round to \<open>2.0 ** 53\<close>.
  \<^item> With \<open>t0 = 2.0\<close> and \<open>alpha = 2.0 ** 1023\<close> the denominator at step 0 overflows to
    infinity and the rate is \<open>0.0\<close>.
  \<^item> With \<open>t0 = 0.5\<close> and \<open>alpha = 2.0 ** -1074\<close> the denominator at step 0 underflows
    to zero and the call raises \<open>ZeroDivisionError\<close>.
\<close>

theorem OptimalLR_get64_not_strict:
  "b64_round 1 = Finite 1 \<and>
   get64 (OptimalLR 1 1) (2 ^ 53) = Inr (PyFloat64 (Finite (1 / 2 ^ 53))) \<and>
   get64 (OptimalLR 1 1) (2 ^ 53 + 1) = Inr (PyFloat64 (Finite (1 / 2 ^ 53))) \<and>
   b64_round 2 = Finite 2 \<and> b64_round (2 powr 1023) = Finite (2 powr 1023) \<and>
   get64 (OptimalLR 2 (2 powr 1023)) 0 = Inr (PyFloat64 (Finite 0)) \<and>
   b64_round (1 / 2) = Finite (1 / 2) \<and> (0::real) < 2 powr (- 1074) \<and>
   b64_round (2 powr (- 1074)) = Finite (2 powr (- 1074)) \<and>
   get64 (OptimalLR (1 / 2) (2 powr (- 1074))) 0 = Inl ZeroDivisionError"
proof -
  have "(2::real) powr 1023 * 2 = 2 powr 1023 * 2 powr 1" by simp
  also have "\<dots> = 2 powr (1023 + 1)" by (rule powr_add[symmetric])
  finally have "(2::real) powr 1023 * 2 = 2 powr of_int 1024" by simp
  then have o: "b64_round (2 powr 1023 * 2) = PInf"
    using b64_round_overflow_pow2[of 1024] by simp
  have r: "b64_round (2 powr 1023) = Finite (2 powr 1023)"
    using b64_round_pow2[of 1023] by simp
  have zero: "get64 (OptimalLR 2 (2 powr 1023)) 0 = Inr (PyFloat64 (Finite 0))"
    using o by (simp add: float_of_int_def b64_round_0 b64_round_2 del: powr_numeral)
  have same: "get64 (OptimalLR 1 1) (2 ^ 53) = Inr (PyFloat64 (Finite (1 / 2 ^ 53)))"
    "get64 (OptimalLR 1 1) (2 ^ 53 + 1) = Inr (PyFloat64 (Finite (1 / 2 ^ 53)))"
    by (simp_all add: float_of_int_def b64_round_2_53 b64_round_2_53_1 b64_round_2_m53)
  have m: "b64_round (2 powr (- 1074)) = Finite (2 powr (- 1074))"
    using b64_round_pow2[of "- 1074"] by simp
  have raises: "get64 (OptimalLR (1 / 2) (2 powr (- 1074))) 0 = Inl ZeroDivisionError"
    using b64_round_min_half
    by (simp add: float_of_int_def b64_round_0 b64_round_half del: powr_numeral)
  have pos: "(0::real) < 2 powr (- 1074)" by simp
  show ?thesis using zero same r m raises pos
    by (simp only: b64_round_1 b64_round_2 b64_round_half)
qed

text \<open>
  C4, amended. For all \<open>alpha > 0\<close> and \<open>t0 > 0\<close> and every non-negative integer step:
  in exact arithmetic \<open>OptimalLR(t0, alpha).get(step)\<close> returns a strictly positive rate
  and the rate at \<open>step + 1\<close> is less than the rate at \<open>step\<close>; in binary64, whenever
  the calls at \<open>step\<close> and \<open>step + 1\<close> return (a call can also raise, as above), the
  rates are floats, non-negative, and the rate at \<open>step + 1\<close> is at most the rate at
  \<open>step\<close>.
\<close>

theorem OptimalLR_get_positive_decreasing:
  "0 < alpha \<Longrightarrow> 0 < t0 \<Longrightarrow> 0 \<le> t \<Longrightarrow>
   (\<exists>r r'. get (OptimalLR t0 alpha) t = Inr (PyFloat r) \<and>
            get (OptimalLR t0 alpha) (t + 1) = Inr (PyFloat r') \<and> 0 < r \<and> r' < r) \<and>
   (\<forall>x x'. get64 (OptimalLR t0 alpha) t = Inr x \<longrightarrow>
            get64 (OptimalLR t0 alpha) (t + 1) = Inr x' \<longrightarrow>
            (\<exists>r r'. x = PyFloat64 r \<and> x' = PyFloat64 r' \<and> f_le (Finite 0) r' \<and> f_le r' r))"
proof -
  assume a: "0 < alpha" and b: "0 < t0" and c: "0 \<le> t"
  let ?d = "alpha * (of_int t + t0)" and ?d' = "alpha * (of_int (t + 1) + t0)"
  have p: "0 < of_int t + t0" using b c by (simp add: add_nonneg_pos)
  have d: "0 < ?d" using a p by simp
  have d': "?d < ?d'" using a by simp
  have lt: "1 / ?d' < 1 / ?d"
    using d d' by (simp add: frac_less2)
  have "?d \<noteq> 0" using d by (rule less_imp_neq[symmetric])
  then have g: "get (OptimalLR t0 alpha) t = Inr (PyFloat (1 / ?d))"
    by (simp only: get_OptimalLR_cases if_False)
  have "0 < ?d'" using d d' by (rule less_trans)
  then have "?d' \<noteq> 0" by (rule less_imp_neq[symmetric])
  then have g': "get (OptimalLR t0 alpha) (t + 1) = Inr (PyFloat (1 / ?d'))"
    by (simp only: get_OptimalLR_cases if_False)
  have "0 < 1 / ?d" using d by simp
  with g g' lt have exact: "\<exists>r r'. get (OptimalLR t0 alpha) t = Inr (PyFloat r) \<and>
      get (OptimalLR t0 alpha) (t + 1) = Inr (PyFloat r') \<and> 0 < r \<and> r' < r"
    by blast
  show ?thesis using exact get64_OptimalLR_nonincreasing[OF a b c] by blast
qed

text \<open>
  With \<open>t0 = alpha = 1.0\<close>: the rate is 1 at step 0 and \<open>1 / 2\<close> at step 1, in both
  readings.
\<close>

theorem OptimalLR_get_positive_decreasing_witness:
  "(0::real) < 1 \<and> (0::int) \<le> 0 \<and>
   get (OptimalLR 1 1) 0 = Inr (PyFloat 1) \<and>
   get (OptimalLR 1 1) (0 + 1) = Inr (PyFloat (1 / 2)) \<and> (1 / 2 :: real) < 1 \<and>
   get64 (OptimalLR 1 1) 0 = Inr (PyFloat64 (Finite 1)) \<and>
   get64 (OptimalLR 1 1) (0 + 1) = Inr (PyFloat64 (Finite (1 / 2))) \<and>
   f_le (Finite 0) (Finite (1 / 2)) \<and> f_le (Finite (1 / 2)) (Finite 1)"
  using OptimalLR_get_positive_decreasing[of 1 1 0]
  by (simp add: truediv_def float_of_int_def b64_round_0 b64_round_1 b64_round_2 b64_round_half)










text \<open>
  C8. As stated (\<open>InverseScalingLR(r, 0).get(step)\<close> is \<open>r\<close> at every integer step), the
  claim fails in binary64 with the power a float, as the specification's data model
  declares it: with the power \<open>0.0\<close>, at step \<open>2 ** 1024 - 1\<close> the base \<open>step + 1\<close> is too
  large for a float and the call raises \<open>OverflowError\<close>, where \<open>ConstantLR(1.0)\<close> returns
  \<open>1.0\<close>.
\<close>

theorem InverseScalingLR_get64_power_zero_overflow:
  "b64_round 1 = Finite 1 \<and> b64_round 0 = Finite 0 \<and>
   get64 (InverseScalingLR 1 0) (2 ^ 1024 - 1) = Inl OverflowError \<and>
   get64 (ConstantLR 1) (2 ^ 1024 - 1) = Inr (PyFloat64 (Finite 1))"
proof -
  have "float_of_int (2 ^ 1024 - 1 + 1) = Inl OverflowError"
    by (simp only: float_of_int_overflow_iff) simp
  then have "get64 (InverseScalingLR 1 0) (2 ^ 1024 - 1) = Inl OverflowError"
    by (simp only: get64_InverseScalingLR sum.case)
  then show ?thesis by (simp add: b64_round_0 b64_round_1)
qed

text \<open>
  C8, amended. In binary64, for every float \<open>r\<close> and every integer step:
  \<^item> with the \<open>int\<close> power 0, \<open>InverseScalingLR(r, 0).get(step)\<close> returns \<open>r\<close>, as
    \<open>ConstantLR(r).get(step)\<close> does: \<open>(step + 1) ** 0\<close> is the \<open>int\<close> 1 at every step;
  \<^item> with the float power \<open>0.0\<close>, \<open>InverseScalingLR(r, 0.0).get(step)\<close> returns \<open>r\<close>, as
    \<open>ConstantLR(r).get(step)\<close> does, where \<open>|step + 1| < 2 ** 1024 - 2 ** 970\<close> (also at
    step \<open>-1\<close>, where \<open>0.0 ** 0.0\<close> is \<open>1.0\<close>); at every other step it raises
    \<open>OverflowError\<close>.
\<close>

theorem InverseScalingLR_power_zero_constant:
  "b64_round r = Finite r \<Longrightarrow>
   get64_with L (InverseScalingLR_int_power r 0) t = Inr (PyFloat64 (Finite r)) \<and>
   get64_with L (InverseScalingLR_int_power r 0) t = get64_with L (ConstantLR r) t \<and>
   get64_with L (InverseScalingLR r 0) t =
     (if \<bar>t + 1\<bar> < 2 ^ 1024 - 2 ^ 970 then Inr (PyFloat64 (Finite r))
      else Inl OverflowError) \<and>
   (\<bar>t + 1\<bar> < 2 ^ 1024 - 2 ^ 970 \<longrightarrow>
      get64_with L (InverseScalingLR r 0) t = get64_with L (ConstantLR r) t)"
proof -
  assume r: "b64_round r = Finite r"
  have i: "get64_with L (InverseScalingLR_int_power r 0) t = Inr (PyFloat64 (Finite r))"
    using r by (simp add: float_of_int_1)
  show ?thesis unfolding get64_with_InverseScalingLR_power_zero r i by simp
qed

text \<open>
  With \<open>r = 1.0\<close>: the rate is \<open>1.0\<close> at step 0 and at step \<open>-1\<close>, and with the \<open>int\<close> power
  0 also at step \<open>2 ** 1024 - 1\<close>.
\<close>

theorem InverseScalingLR_power_zero_constant_witness:
  "b64_round 1 = Finite 1 \<and> \<bar>0 + 1 :: int\<bar> < 2 ^ 1024 - 2 ^ 970 \<and>
   get64 (InverseScalingLR 1 0) 0 = Inr (PyFloat64 (Finite 1)) \<and>
   get64 (InverseScalingLR 1 0) 0 = get64 (ConstantLR 1) 0 \<and>
   get64 (InverseScalingLR 1 0) (- 1) = Inr (PyFloat64 (Finite 1)) \<and>
   get64 (InverseScalingLR_int_power 1 0) (2 ^ 1024 - 1) = Inr (PyFloat64 (Finite 1))"
  using InverseScalingLR_power_zero_constant[of 1 correctly_rounded 0]
    InverseScalingLR_power_zero_constant[of 1 correctly_rounded "- 1"]
    InverseScalingLR_power_zero_constant[of 1 correctly_rounded "2 ^ 1024 - 1"]
  by (simp add: get64_def b64_round_1)

text \<open>
  C9. For every scheduler, every configuration and every integer step, a call of \<open>get\<close>
  leaves the object (all its attributes) unchanged; and over any sequence of calls the
  object stays the same and each result is the function \<open>get self\<close> of the step alone,
  so two calls with the same configuration and the same step return the same result.
\<close>

theorem call_get_frame:
  "snd (call_get self t) = self \<and>
   fst (call_get self t) = get self t \<and>
   run self ts = (map (get self) ts, self) \<and>
   run self [t, t] = ([get self t, get self t], self)"
  by (simp add: run_frame del: run.simps) (simp add: call_get_def)





end
